theory Spec2Isabelle
  imports Complex_Main "HOL-Library.Sublist"
begin

section \<open>Frame decoder: \<open>StreamingService.streamAgent\<close>\<close>

text \<open>
  The streaming service reads the response body chunk by chunk, keeps the text after the
  last newline in \<open>buffer\<close>, and hands every complete line to the \<open>for\<close> loop.
  Text is a \<open>string\<close>; a chunk is the text that \<open>decoder.decode(value, {stream: true})\<close>
  returned for it. \<open>JSON.parse\<close> is a parameter \<open>parse\<close> of the model: \<open>None\<close> is the
  thrown \<open>SyntaxError\<close>, \<open>Some v\<close> the value it returned. The value is given to the
  callback as it is: \<open>const event: StreamingEvent = JSON.parse(data)\<close> checks nothing,
  so the type \<open>'v\<close> of parsed values is a parameter as well.
\<close>

text \<open>
  The \<open>try\<close> block encloses \<open>JSON.parse(data)\<close> and \<open>onEvent(event)\<close>. A callback
  either returns (\<open>Normal\<close>) or throws (\<open>Threw\<close>); in both cases it leaves a state,
  since what it did before it threw is not undone. An exception of the callback reaches
  the same \<open>catch\<close> as one of \<open>JSON.parse\<close> and is logged with the payload.
\<close>

datatype 'st completion = Normal 'st | Threw 'st

text \<open>A value caught by \<open>catch (error)\<close>: an \<open>Error\<close> instance with its message, or anything else.\<close>

datatype thrown = ErrorObj string | NonError

text \<open>\<open>String.prototype.split('\n')\<close>: always at least one piece.\<close>

fun split_newline :: "string \<Rightarrow> string list" where
  "split_newline [] = [[]]"
| "split_newline (c # cs) =
     (if c = CHR 0x0A then [] # split_newline cs
      else (case split_newline cs of
              [] \<Rightarrow> [[c]]
            | l # ls \<Rightarrow> (c # l) # ls))"

text \<open>
  How the \<open>for (const line of lines)\<close> loop ends: it runs through (\<open>Continue\<close>), or it
  executes \<open>return\<close> at the sentinel (\<open>Return\<close>). The state carried is the list of
  \<open>console.warn\<close> diagnostics and the consumer's state.
\<close>

datatype 'a loop = Continue 'a | Return 'a

fun process_lines ::
  "(string \<Rightarrow> 'v option) \<Rightarrow> ('v \<Rightarrow> 'st \<Rightarrow> 'st completion) \<Rightarrow> string list
     \<Rightarrow> string list \<times> 'st \<Rightarrow> (string list \<times> 'st) loop" where
  "process_lines parse onEvent [] (warns, st) = Continue (warns, st)"
| "process_lines parse onEvent (line # rest) (warns, st) =
     (if prefix ''data: '' line then
        (let data = drop 6 line in
         if data = ''[DONE]'' then Return (warns, st)
         else (case parse data of
                 Some event \<Rightarrow>
                   (case onEvent event st of
                      Normal st' \<Rightarrow> process_lines parse onEvent rest (warns, st')
                    | Threw st' \<Rightarrow> process_lines parse onEvent rest (warns @ [data], st'))
               | None \<Rightarrow> process_lines parse onEvent rest (warns @ [data], st)))
      else process_lines parse onEvent rest (warns, st))"

text \<open>
  One \<open>await reader.read()\<close>: a chunk, or a rejection. The end of the list is
  \<open>done = true\<close>.
\<close>

datatype read = Chunk string | Rejected thrown

text \<open>
  How \<open>streamAgent\<close> settles: the reader reported the end (\<open>break\<close>), the sentinel was
  met (\<open>return\<close>), or an exception left the function.
\<close>

datatype exit = StreamClosed | Sentinel | Exception thrown

fun read_loop ::
  "(string \<Rightarrow> 'v option) \<Rightarrow> ('v \<Rightarrow> 'st \<Rightarrow> 'st completion) \<Rightarrow> read list \<Rightarrow> string
     \<Rightarrow> string list \<times> 'st \<Rightarrow> exit \<times> string list \<times> 'st" where
  "read_loop parse onEvent [] buffer x = (StreamClosed, x)"
| "read_loop parse onEvent (Rejected t # rest) buffer x = (Exception t, x)"
| "read_loop parse onEvent (Chunk v # rest) buffer x =
     (let lines = split_newline (buffer @ v);
          buffer' = last lines
      in case process_lines parse onEvent (butlast lines) x of
           Return x' \<Rightarrow> (Sentinel, x')
         | Continue x' \<Rightarrow> read_loop parse onEvent rest buffer' x')"

text \<open>
  What \<open>fetch\<close> and the response gave: \<open>fetch\<close> rejected; the response was not ok
  (with the outcome of \<open>response.text()\<close> and the status text); the body had no reader;
  or a body that is read.
\<close>

datatype response =
    FetchRejected thrown
  | NotOk "thrown + string" string
  | NoReader
  | Body "read list"

definition streamAgent ::
  "(string \<Rightarrow> 'v option) \<Rightarrow> ('v \<Rightarrow> 'st \<Rightarrow> 'st completion) \<Rightarrow> response \<Rightarrow> 'st
     \<Rightarrow> exit \<times> string list \<times> 'st" where
  "streamAgent parse onEvent resp st =
     (case resp of
        FetchRejected t \<Rightarrow> (Exception t, [], st)
      | NotOk txt statusText \<Rightarrow>
          (case txt of
             Inl t \<Rightarrow> (Exception t, [], st)
           | Inr errorData \<Rightarrow>
               (Exception (ErrorObj (if errorData \<noteq> [] then errorData
                                     else ''Failed to stream agent: '' @ statusText)), [], st))
      | NoReader \<Rightarrow> (Exception (ErrorObj ''Failed to get response reader''), [], st)
      | Body reads \<Rightarrow> read_loop parse onEvent reads [] ([], st))"

section \<open>Event model and conversation state (\<open>types/agent\<close>)\<close>

text \<open>
  A value of type \<open>any\<close> is a JSON value; \<open>truthy\<close> is what \<open>||\<close> tests. The finite
  numbers of JSON are rationals here.
\<close>

datatype json =
    JNull
  | JBool bool
  | JNum rat
  | JStr string
  | JArr "json list"
  | JObj "(string \<times> json) list"

fun truthy :: "json \<Rightarrow> bool" where
  "truthy JNull = False"
| "truthy (JBool b) = b"
| "truthy (JNum n) = (n \<noteq> 0)"
| "truthy (JStr s) = (s \<noteq> [])"
| "truthy (JArr xs) = True"
| "truthy (JObj kvs) = True"

text \<open>\<open>a || b\<close> on optional fields of type \<open>any\<close>; \<open>None\<close> is \<open>undefined\<close>.\<close>

definition js_or :: "json option \<Rightarrow> json option \<Rightarrow> json option" where
  "js_or a b = (case a of Some v \<Rightarrow> (if truthy v then Some v else b) | None \<Rightarrow> b)"

datatype StreamingEventType =
    E_start | E_content | E_tool_call | E_tool_response | E_tool_result
  | E_thinking | E_error | E_complete | E_metadata

text \<open>
  \<open>StreamingMetadata\<close>: the optional fields the hook reads, by their declared types;
  the other optional fields are kept together in \<open>other_fields\<close>.
\<close>

record StreamingMetadata =
  tool_name :: "string option"
  tool_args :: "(string \<times> json) list option"
  call_id :: "string option"
  response_id :: "string option"
  tool_result :: "json option"
  raw_response :: "json option"
  total_events :: "rat option"
  other_fields :: "(string \<times> json) list"

record StreamingEvent =
  ev_type :: StreamingEventType
  ev_content :: string
  ev_metadata :: StreamingMetadata
  ev_timestamp :: rat
  session_id :: "string option"
  agent_id :: "string option"

datatype role = User | Assistant | System

text \<open>
  The two object literals the hook stores in \<open>ChatMessage.metadata\<close>:
  \<open>{ agent_id, status }\<close> and \<open>{ ...event.metadata, total_events }\<close>.
\<close>

datatype message_metadata = AgentMeta string string | CompleteMeta StreamingMetadata

record ChatMessage =
  msg_id :: string
  msg_type :: role
  msg_content :: string
  msg_timestamp :: int
  msg_metadata :: "message_metadata option"
  streaming :: "bool option"
  msg_events :: "StreamingEvent list option"

datatype tool_status = S_pending | S_running | S_completed | S_error

record ToolCall =
  tc_id :: string
  name :: string
  args :: "(string \<times> json) list"
  tc_timestamp :: int
  status :: tool_status
  result :: "json option"
  tc_error :: "string option"
  duration :: "int option"

record ConversationState =
  messages :: "ChatMessage list"
  isLoading :: bool
  isStreaming :: bool
  currentAgent :: string
  error :: "string option"
  toolCalls :: "ToolCall list"
  streamingEvents :: "StreamingEvent list"

record AgentResponse =
  response_text :: string
  response_agent_id :: string
  response_status :: string

section \<open>The hook \<open>useAgentChat\<close>\<close>

text \<open>
  \<open>Date.now()\<close>, \<open>Math.random()\<close> and \<open>new Date()\<close> are inputs of the model. One id
  is made from one reading of each: \<open>date_now\<close> is \<open>Date.now()\<close>, \<open>random36\<close> is
  \<open>Math.random().toString(36).substr(2, 9)\<close>, \<open>new_date\<close> is \<open>new Date()\<close> in
  milliseconds.
\<close>

record entropy =
  date_now :: int
  random36 :: string
  new_date :: int

fun digits :: "nat \<Rightarrow> string" where
  "digits n =
     (if n < 10 then [''0123456789'' ! n]
      else digits (n div 10) @ [''0123456789'' ! (n mod 10)])"

definition number_toString :: "int \<Rightarrow> string" where
  "number_toString i = (if i < 0 then CHR ''-'' # digits (nat (- i)) else digits (nat i))"

definition make_id :: "entropy \<Rightarrow> string" where
  "make_id e = number_toString (date_now e) @ ''-'' @ random36 e"

definition initial :: "string \<Rightarrow> ConversationState" where
  "initial agentId =
     \<lparr>messages = [], isLoading = False, isStreaming = False, currentAgent = agentId,
      error = None, toolCalls = [], streamingEvents = []\<rparr>"

text \<open>
  \<open>addMessage\<close> and \<open>addToolCall\<close> take the record without \<open>id\<close> and \<open>timestamp\<close>
  and set both (\<open>{...message, id, timestamp}\<close>): the argument's own values of the two
  fields are overwritten.
\<close>

definition addMessage ::
  "entropy \<Rightarrow> ChatMessage \<Rightarrow> ConversationState \<Rightarrow> string \<times> ConversationState" where
  "addMessage e message prev =
     (let newMessage = message\<lparr>msg_id := make_id e, msg_timestamp := new_date e\<rparr>
      in (msg_id newMessage, prev\<lparr>messages := messages prev @ [newMessage]\<rparr>))"

definition updateMessage ::
  "string \<Rightarrow> (ChatMessage \<Rightarrow> ChatMessage) \<Rightarrow> ConversationState \<Rightarrow> ConversationState" where
  "updateMessage messageId updates prev =
     prev\<lparr>messages := map (\<lambda>msg. if msg_id msg = messageId then updates msg else msg)
                            (messages prev)\<rparr>"

definition addToolCall ::
  "entropy \<Rightarrow> ToolCall \<Rightarrow> ConversationState \<Rightarrow> string \<times> ConversationState" where
  "addToolCall e toolCall prev =
     (let newToolCall = toolCall\<lparr>tc_id := make_id e, tc_timestamp := new_date e\<rparr>
      in (tc_id newToolCall, prev\<lparr>toolCalls := toolCalls prev @ [newToolCall]\<rparr>))"

definition updateToolCall ::
  "string \<Rightarrow> (ToolCall \<Rightarrow> ToolCall) \<Rightarrow> ConversationState \<Rightarrow> ConversationState" where
  "updateToolCall toolCallId updates prev =
     prev\<lparr>toolCalls := map (\<lambda>call. if tc_id call = toolCallId then updates call else call)
                             (toolCalls prev)\<rparr>"

text \<open>The object literals passed to \<open>addMessage\<close> and \<open>addToolCall\<close>.\<close>

definition user_message :: "string \<Rightarrow> ChatMessage" where
  "user_message content =
     \<lparr>msg_id = [], msg_type = User, msg_content = content, msg_timestamp = 0,
      msg_metadata = None, streaming = None, msg_events = None\<rparr>"

definition assistant_placeholder :: ChatMessage where
  "assistant_placeholder =
     \<lparr>msg_id = [], msg_type = Assistant, msg_content = [], msg_timestamp = 0,
      msg_metadata = None, streaming = Some True, msg_events = Some []\<rparr>"

definition sync_message :: "AgentResponse \<Rightarrow> ChatMessage" where
  "sync_message r =
     \<lparr>msg_id = [], msg_type = Assistant, msg_content = response_text r, msg_timestamp = 0,
      msg_metadata = Some (AgentMeta (response_agent_id r) (response_status r)),
      streaming = None, msg_events = None\<rparr>"

definition running_call :: "StreamingEvent \<Rightarrow> ToolCall" where
  "running_call event =
     \<lparr>tc_id = [],
      name = (case tool_name (ev_metadata event) of
                Some n \<Rightarrow> (if n \<noteq> [] then n else ''unknown'')
              | None \<Rightarrow> ''unknown''),
      args = (case tool_args (ev_metadata event) of Some a \<Rightarrow> a | None \<Rightarrow> []),
      tc_timestamp = 0, status = S_running, result = None, tc_error = None, duration = None\<rparr>"

text \<open>
  The local variables of one \<open>handleStreamingResponse\<close> call, which the callback closes
  over.
\<close>

record closure =
  assistantMessageId :: string
  fullContent :: string
  events :: "StreamingEvent list"

text \<open>
  What one run of the callback reads from the clock: the readings for the id of a new
  tool call, and \<open>Date.now()\<close> as evaluated for the call at each index of
  \<open>prev.toolCalls\<close> in the \<open>tool_response\<close> case. (The \<open>tool_call\<close> case also computes
  \<open>callId\<close> from \<open>call_id\<close>, or the tool name and \<open>Date.now()\<close>; the value is never used.)
  The readings of the k-th event of a stream are \<open>world k\<close>.
\<close>

record readings =
  tool_entropy :: entropy
  now_at :: "nat \<Rightarrow> int"

definition complete_call :: "readings \<Rightarrow> StreamingEvent \<Rightarrow> nat \<times> ToolCall \<Rightarrow> ToolCall" where
  "complete_call r event = (\<lambda>(i, call).
     if Some (name call) = tool_name (ev_metadata event) \<and> status call = S_running
     then call\<lparr>status := S_completed,
               result := js_or (raw_response (ev_metadata event)) (tool_result (ev_metadata event)),
               duration := Some (now_at r i - tc_timestamp call)\<rparr>
     else call)"

definition fail_call :: "StreamingEvent \<Rightarrow> ToolCall \<Rightarrow> ToolCall" where
  "fail_call event call =
     (if status call = S_running
      then call\<lparr>status := S_error, tc_error := Some (ev_content event)\<rparr>
      else call)"

definition onEvent ::
  "(nat \<Rightarrow> readings) \<Rightarrow> StreamingEvent \<Rightarrow> closure \<times> ConversationState
     \<Rightarrow> closure \<times> ConversationState" where
  "onEvent world event = (\<lambda>(c, prev).
     let r = world (length (events c));
         c1 = c\<lparr>events := events c @ [event]\<rparr>;
         s1 = prev\<lparr>streamingEvents := streamingEvents prev @ [event]\<rparr>
     in case ev_type event of
          E_content \<Rightarrow>
            (let c2 = c1\<lparr>fullContent := fullContent c1 @ ev_content event\<rparr>
             in (c2, updateMessage (assistantMessageId c2)
                       (\<lambda>m. m\<lparr>msg_content := fullContent c2, msg_events := Some (events c2)\<rparr>) s1))
        | E_tool_call \<Rightarrow> (c1, snd (addToolCall (tool_entropy r) (running_call event) s1))
        | E_tool_response \<Rightarrow>
            (c1, s1\<lparr>toolCalls := map (complete_call r event) (enumerate 0 (toolCalls s1))\<rparr>)
        | E_error \<Rightarrow>
            (c1, s1\<lparr>error := Some (ev_content event),
                     toolCalls := map (fail_call event) (toolCalls s1)\<rparr>)
        | E_complete \<Rightarrow>
            (c1, updateMessage (assistantMessageId c1)
                   (\<lambda>m. m\<lparr>streaming := Some False,
                            msg_metadata := Some (CompleteMeta ((ev_metadata event)
                               \<lparr>total_events := Some (of_nat (length (events c1)))\<rparr>))\<rparr>) s1)
        | _ \<Rightarrow> (c1, s1))"

text \<open>
  The hook's state: the React state and \<open>abortControllerRef.current\<close> (\<open>None\<close> is
  \<open>null\<close>, \<open>Some b\<close> a controller whose signal has \<open>aborted = b\<close>).
\<close>

record hook =
  state :: ConversationState
  abortControllerRef :: "bool option"

text \<open>\<open>sendMessage\<close> up to the \<open>try\<close>: no test of \<open>isStreaming\<close> or \<open>isLoading\<close> is made.\<close>

definition sendMessage_begin :: "entropy \<Rightarrow> string \<Rightarrow> bool \<Rightarrow> hook \<Rightarrow> hook" where
  "sendMessage_begin e content useStreaming h =
     (let s1 = snd (addMessage e (user_message content) (state h));
          s2 = s1\<lparr>isLoading := True, isStreaming := useStreaming, error := None,
                  streamingEvents := []\<rparr>
      in h\<lparr>state := s2, abortControllerRef := Some False\<rparr>)"

definition handleStreamingResponse_begin ::
  "entropy \<Rightarrow> ConversationState \<Rightarrow> closure \<times> ConversationState" where
  "handleStreamingResponse_begin e prev =
     (let (assistantId, s1) = addMessage e assistant_placeholder prev
      in (\<lparr>assistantMessageId = assistantId, fullContent = [], events = []\<rparr>, s1))"

text \<open>
  The hook is modelled on streams whose payloads are of the declared type
  \<open>StreamingEvent\<close>: \<open>parse\<close> yields such values here, and on them the callback
  returns, it does not throw.
\<close>

definition handleStreamingResponse ::
  "entropy \<Rightarrow> (string \<Rightarrow> StreamingEvent option) \<Rightarrow> (nat \<Rightarrow> readings) \<Rightarrow> response
     \<Rightarrow> ConversationState \<Rightarrow> exit \<times> ConversationState" where
  "handleStreamingResponse e parse world resp prev =
     (case streamAgent parse (\<lambda>event x. Normal (onEvent world event x)) resp
             (handleStreamingResponse_begin e prev) of
        (ex, warns, c, s) \<Rightarrow> (ex, s))"

text \<open>\<open>handleSyncResponse\<close>: \<open>callAgent\<close> rejected, or returned the agent's response.\<close>

definition handleSyncResponse ::
  "entropy \<Rightarrow> thrown + AgentResponse \<Rightarrow> ConversationState \<Rightarrow> exit \<times> ConversationState" where
  "handleSyncResponse e reply prev =
     (case reply of
        Inl t \<Rightarrow> (Exception t, prev)
      | Inr r \<Rightarrow> (StreamClosed, snd (addMessage e (sync_message r) prev)))"

definition error_message :: "thrown \<Rightarrow> string" where
  "error_message t = (case t of ErrorObj m \<Rightarrow> m | NonError \<Rightarrow> ''An error occurred'')"

text \<open>The \<open>catch\<close> and \<open>finally\<close> blocks of \<open>sendMessage\<close>.\<close>

definition sendMessage_end :: "exit \<Rightarrow> hook \<Rightarrow> hook" where
  "sendMessage_end ex h =
     (let s1 = (case ex of
                  Exception t \<Rightarrow> (state h)\<lparr>error := Some (error_message t)\<rparr>
                | _ \<Rightarrow> state h)
      in h\<lparr>state := s1\<lparr>isLoading := False, isStreaming := False\<rparr>,
            abortControllerRef := None\<rparr>)"

text \<open>
  One whole \<open>sendMessage\<close>, with nothing else scheduled between its steps. \<open>e1\<close> and
  \<open>e2\<close> are the readings for the user message and for the assistant message; \<open>resp\<close>
  is what the streaming endpoint gives and \<open>reply\<close> what the non-streaming one gives.
\<close>

definition sendMessage ::
  "entropy \<Rightarrow> entropy \<Rightarrow> (string \<Rightarrow> StreamingEvent option) \<Rightarrow> (nat \<Rightarrow> readings)
     \<Rightarrow> response \<Rightarrow> thrown + AgentResponse \<Rightarrow> string \<Rightarrow> bool \<Rightarrow> hook \<Rightarrow> hook" where
  "sendMessage e1 e2 parse world resp reply content useStreaming h =
     (let h1 = sendMessage_begin e1 content useStreaming h;
          (ex, s) = (if useStreaming then handleStreamingResponse e2 parse world resp (state h1)
                     else handleSyncResponse e2 reply (state h1))
      in sendMessage_end ex (h1\<lparr>state := s\<rparr>))"

definition stopStreaming :: "hook \<Rightarrow> hook" where
  "stopStreaming h =
     (case abortControllerRef h of
        Some b \<Rightarrow> h\<lparr>abortControllerRef := Some True\<rparr>
      | None \<Rightarrow> h)"


text \<open>
  What happens while a stream is in flight: the body delivers a chunk, the read fails,
  or the user presses stop, which calls \<open>stopStreaming\<close> on the hook. The signal given
  to \<open>fetch\<close> is the one of the controller in \<open>abortControllerRef\<close>. By the contract of
  \<open>fetch\<close>, once that signal is aborted the body is errored: the read that is pending
  or comes next rejects with the abort error \<open>a\<close>, whatever the transport still holds.
  \<open>body_reads a h\<close> gives what \<open>reader.read()\<close> yields, one after the other, when the
  hook is \<open>h\<close> at the start.
\<close>

datatype occurrence = Deliver string | Fail thrown | UserStop

fun body_reads :: "thrown \<Rightarrow> hook \<Rightarrow> occurrence list \<Rightarrow> read list" where
  "body_reads a h [] = (if abortControllerRef h = Some True then [Rejected a] else [])"
| "body_reads a h (Deliver v # os) =
     (if abortControllerRef h = Some True then [Rejected a] else Chunk v # body_reads a h os)"
| "body_reads a h (Fail t # os) =
     (if abortControllerRef h = Some True then [Rejected a] else [Rejected t])"
| "body_reads a h (UserStop # os) = body_reads a (stopStreaming h) os"

text \<open>
  One streaming \<open>sendMessage\<close> during which the occurrences \<open>os\<close> happen: the body is
  read under the controller that \<open>sendMessage\<close> has just installed. (The reply of the
  non-streaming endpoint is not consulted on this path.)
\<close>

definition sendMessage_during ::
  "entropy \<Rightarrow> entropy \<Rightarrow> (string \<Rightarrow> StreamingEvent option) \<Rightarrow> (nat \<Rightarrow> readings)
     \<Rightarrow> thrown \<Rightarrow> occurrence list \<Rightarrow> string \<Rightarrow> hook \<Rightarrow> hook" where
  "sendMessage_during e1 e2 parse world a os content h =
     sendMessage e1 e2 parse world
       (Body (body_reads a (sendMessage_begin e1 content True h) os))
       (Inl NonError) content True h"

definition initial_hook :: "string \<Rightarrow> hook" where
  "initial_hook agentId = \<lparr>state = initial agentId, abortControllerRef = None\<rparr>"

section \<open>Notions used in the properties\<close>

text \<open>
  The events that \<open>streamAgent\<close> hands to its callback, in order: the decoder run with a
  callback that records its argument.
\<close>

definition decoded_events :: "(string \<Rightarrow> 'e option) \<Rightarrow> response \<Rightarrow> 'e list" where
  "decoded_events parse resp =
     snd (snd (streamAgent parse (\<lambda>e es. Normal (es @ [e])) resp []))"

text \<open>The concatenation of the \<open>content\<close> fields of the \<open>content\<close> events, in order.\<close>

definition content_of :: "StreamingEvent list \<Rightarrow> string" where
  "content_of es = concat (map ev_content (filter (\<lambda>e. ev_type e = E_content) es))"

text \<open>The events up to and including the last \<open>content\<close> event; empty when there is none.\<close>

definition upto_last_content :: "StreamingEvent list \<Rightarrow> StreamingEvent list" where
  "upto_last_content es = rev (dropWhile (\<lambda>e. ev_type e \<noteq> E_content) (rev es))"

text \<open>
  The relation between the callback's local variables and the message it updates: the
  last message is the one whose id the closure holds, its content is \<open>fullContent\<close> and
  its events are those recorded at the last \<open>content\<close> event.
\<close>

definition tracks :: "closure \<times> ConversationState \<Rightarrow> bool" where
  "tracks = (\<lambda>(c, s). messages s \<noteq> []
     \<and> msg_id (last (messages s)) = assistantMessageId c
     \<and> msg_content (last (messages s)) = fullContent c
     \<and> msg_events (last (messages s)) = Some (upto_last_content (events c)))"

text \<open>
  The invariant of the message list: no message other than the last one is an assistant
  message with \<open>streaming = true\<close>. So at most one such message exists, and it is the
  most recently appended one.
\<close>

definition streaming_assistant :: "ChatMessage \<Rightarrow> bool" where
  "streaming_assistant m = (msg_type m = Assistant \<and> streaming m = Some True)"

definition single_streaming :: "ChatMessage list \<Rightarrow> bool" where
  "single_streaming ms = list_all (\<lambda>m. \<not> streaming_assistant m) (butlast ms)"

text \<open>
  A state with everything read from the clock and the random generator blanked: ids,
  timestamps, and the value of a duration (whether a duration is present is kept).
\<close>

definition erase_message :: "ChatMessage \<Rightarrow> ChatMessage" where
  "erase_message m = m\<lparr>msg_id := [], msg_timestamp := 0\<rparr>"

definition erase_call :: "ToolCall \<Rightarrow> ToolCall" where
  "erase_call t = t\<lparr>tc_id := [], tc_timestamp := 0, duration := map_option (\<lambda>d. 0) (duration t)\<rparr>"

definition erase_state :: "ConversationState \<Rightarrow> ConversationState" where
  "erase_state s = s\<lparr>messages := map erase_message (messages s),
                     toolCalls := map erase_call (toolCalls s)\<rparr>"

text \<open>
  Replaying an event sequence into a fresh state: the state \<open>useState\<close> starts with, the
  assistant message of \<open>handleStreamingResponse\<close>, then the callback on each event.
\<close>

definition replay ::
  "string \<Rightarrow> entropy \<Rightarrow> (nat \<Rightarrow> readings) \<Rightarrow> StreamingEvent list \<Rightarrow> ConversationState" where
  "replay agentId e world es =
     snd (fold (onEvent world) es (handleStreamingResponse_begin e (initial agentId)))"

text \<open>
  Two notions for comparing replays. \<open>blank\<close> forgets the message id the closure holds
  and erases the state. \<open>own_messages\<close> says that every message of the state has the id
  the closure holds, as in a fresh state after \<open>handleStreamingResponse\<close> has appended
  its message.
\<close>

definition blank :: "closure \<times> ConversationState \<Rightarrow> closure \<times> ConversationState" where
  "blank = (\<lambda>(c, s). (c\<lparr>assistantMessageId := []\<rparr>, erase_state s))"

definition own_messages :: "closure \<times> ConversationState \<Rightarrow> bool" where
  "own_messages = (\<lambda>(c, s). list_all (\<lambda>m. msg_id m = assistantMessageId c) (messages s))"

section \<open>Sample inputs\<close>

definition no_metadata :: StreamingMetadata where
  "no_metadata =
     \<lparr>tool_name = None, tool_args = None, call_id = None, response_id = None,
      tool_result = None, raw_response = None, total_events = None, other_fields = []\<rparr>"

definition sample_event :: "StreamingEventType \<Rightarrow> string \<Rightarrow> StreamingMetadata \<Rightarrow> StreamingEvent" where
  "sample_event ty text md =
     \<lparr>ev_type = ty, ev_content = text, ev_metadata = md, ev_timestamp = 0,
      session_id = None, agent_id = None\<rparr>"

definition sample_entropy :: "int \<Rightarrow> entropy" where
  "sample_entropy n = \<lparr>date_now = n, random36 = ''k3j9x0q2z'', new_date = n\<rparr>"

definition sample_world :: "nat \<Rightarrow> readings" where
  "sample_world k = \<lparr>tool_entropy = sample_entropy (100 + int k), now_at = (\<lambda>i. 250)\<rparr>"

text \<open>
  A stand-in for \<open>JSON.parse\<close> on three payloads: \<open>c text\<close> is a \<open>content\<close> event with
  that text, \<open>thinking\<close> and \<open>complete\<close> are events of those kinds; anything else does
  not parse.
\<close>

definition sample_parse :: "string \<Rightarrow> StreamingEvent option" where
  "sample_parse d =
     (if take 2 d = ''c '' then Some (sample_event E_content (drop 2 d) no_metadata)
      else if d = ''thinking'' then Some (sample_event E_thinking [] no_metadata)
      else if d = ''complete'' then Some (sample_event E_complete [] no_metadata)
      else None)"

text \<open>
  A stand-in for \<open>JSON.parse\<close> with JSON values as results: \<open>5\<close> is the number,
  \<open>null\<close> is null, \<open>"ok"\<close> is the string; anything else does not parse.
\<close>

definition sample_json :: "string \<Rightarrow> json option" where
  "sample_json d =
     (if d = ''5'' then Some (JNum 5)
      else if d = ''null'' then Some JNull
      else if d = [CHR 0x22, CHR ''o'', CHR ''k'', CHR 0x22] then Some (JStr ''ok'')
      else None)"

definition sample_reply :: "thrown + AgentResponse" where
  "sample_reply = Inr \<lparr>response_text = ''ok'', response_agent_id = ''agent'', response_status = ''success''\<rparr>"

text \<open>
  The hook while a first streaming \<open>sendMessage\<close> is in flight: the user message and
  the assistant message have been appended and the stream has delivered nothing yet.
\<close>

definition in_flight :: hook where
  "in_flight =
     (let h1 = sendMessage_begin (sample_entropy 1) ''hi'' True (initial_hook ''agent'')
      in h1\<lparr>state := snd (handleStreamingResponse_begin (sample_entropy 2) (state h1))\<rparr>)"

text \<open>
  A call of the tool \<open>calc\<close> with a \<open>call_id\<close>, and a response with a \<open>response_id\<close>,
  the raw response \<open>"42"\<close> and, optionally, the tool's name.
\<close>

definition calc_call :: "string \<Rightarrow> StreamingEvent" where
  "calc_call cid =
     sample_event E_tool_call [] (no_metadata\<lparr>tool_name := Some ''calc'', call_id := Some cid\<rparr>)"

definition calc_response :: "string option \<Rightarrow> string \<Rightarrow> StreamingEvent" where
  "calc_response tn rid =
     sample_event E_tool_response []
       (no_metadata\<lparr>tool_name := tn, response_id := Some rid, raw_response := Some (JStr ''42'')\<rparr>)"

section \<open>Properties of the decoder\<close>

lemma split_newline_nonempty: "split_newline s \<noteq> []"
  by (induction s) (auto split: list.splits)

lemma split_newline_append:
  "split_newline (a @ b) =
     butlast (split_newline a) @ split_newline (last (split_newline a) @ b)"
proof (induction a)
  case Nil
  show ?case by simp
next
  case (Cons c a)
  show ?case
  proof (cases "c = CHR 0x0A")
    case True
    with Cons show ?thesis by (simp add: split_newline_nonempty)
  next
    case False
    obtain l ls where A: "split_newline a = l # ls"
      using split_newline_nonempty [of a] by (cases "split_newline a") auto
    show ?thesis
    proof (cases ls)
      case Nil
      with A False Cons show ?thesis by simp
    next
      case (Cons m ms)
      with A False Cons.IH show ?thesis by simp
    qed
  qed
qed

lemma complete_lines_append:
  "butlast (split_newline (a @ b)) =
     butlast (split_newline a) @ butlast (split_newline (last (split_newline a) @ b))"
  by (subst split_newline_append) (simp add: butlast_append split_newline_nonempty)

lemma last_segment_append:
  "last (split_newline (a @ b)) = last (split_newline (last (split_newline a) @ b))"
  by (subst split_newline_append) (simp add: split_newline_nonempty)

lemma process_lines_append:
  "process_lines parse emit (xs @ ys) x =
     (case process_lines parse emit xs x of
        Return x' \<Rightarrow> Return x'
      | Continue x' \<Rightarrow> process_lines parse emit ys x')"
proof (induction xs arbitrary: x)
  case Nil
  show ?case by (cases x) simp
next
  case (Cons l xs)
  show ?case
    by (cases x) (simp add: Cons.IH Let_def split: option.splits completion.splits)
qed

lemma process_lines_warns:
  "map_loop snd (process_lines parse emit ls (w, st)) =
   map_loop snd (process_lines parse emit ls (w', st))"
proof (induction ls arbitrary: w w' st)
  case Nil
  show ?case by simp
next
  case (Cons l ls)
  show ?case
    using Cons.IH
    by (simp add: Let_def split: option.splits completion.splits)
qed

lemma last_segment_no_newline: "CHR 0x0A \<notin> set (last (split_newline s))"
proof (induction s)
  case Nil
  show ?case by simp
next
  case (Cons c s)
  obtain l ls where A: "split_newline s = l # ls"
    using split_newline_nonempty [of s] by (cases "split_newline s") auto
  with Cons show ?case by (cases ls) auto
qed

lemma split_newline_single: "CHR 0x0A \<notin> set s \<Longrightarrow> split_newline s = [s]"
  by (induction s) auto

lemma read_loop_complete_lines:
  "CHR 0x0A \<notin> set buffer \<Longrightarrow>
   read_loop parse emit (map Chunk cs) buffer x =
     (case process_lines parse emit (butlast (split_newline (buffer @ concat cs))) x of
        Return x' \<Rightarrow> (Sentinel, x')
      | Continue x' \<Rightarrow> (StreamClosed, x'))"
proof (induction cs arbitrary: buffer x)
  case Nil
  then show ?case by (cases x) (simp add: split_newline_single)
next
  case (Cons c cs)
  have step: "butlast (split_newline (buffer @ c @ concat cs)) =
      butlast (split_newline (buffer @ c)) @
      butlast (split_newline (last (split_newline (buffer @ c)) @ concat cs))"
    using complete_lines_append [of "buffer @ c" "concat cs"] by simp
  show ?case
  proof (cases "process_lines parse emit (butlast (split_newline (buffer @ c))) x")
    case (Return x')
    then show ?thesis by (simp add: step process_lines_append)
  next
    case (Continue x')
    then show ?thesis
      by (simp add: step process_lines_append Cons.IH [OF last_segment_no_newline])
  qed
qed

lemma split_newline_line:
  "CHR 0x0A \<notin> set l \<Longrightarrow> split_newline (l @ CHR 0x0A # r) = l # split_newline r"
  by (induction l) auto

lemma last_segment_terminated:
  assumes "body = [] \<or> last body = CHR 0x0A"
  shows "last (split_newline body) = []"
proof (cases "body = []")
  case True
  then show ?thesis by simp
next
  case False
  with assms obtain b where B: "body = b @ [CHR 0x0A]"
    by (metis append_butlast_last_id)
  have "last (split_newline (b @ [CHR 0x0A])) =
        last (split_newline (last (split_newline b) @ [CHR 0x0A]))"
    by (rule last_segment_append)
  also have "\<dots> = []"
    by (simp add: split_newline_line [OF last_segment_no_newline])
  finally show ?thesis using B by simp
qed

lemma complete_lines_trailing:
  assumes "body = [] \<or> last body = CHR 0x0A" and "CHR 0x0A \<notin> set t"
  shows "butlast (split_newline (body @ t)) = butlast (split_newline body)"
  using assms
  by (simp add: complete_lines_append [of body t] last_segment_terminated split_newline_single)

lemma complete_lines_joined:
  assumes "pre = [] \<or> last pre = CHR 0x0A"
  shows "butlast (split_newline (pre @ post)) =
         butlast (split_newline pre) @ butlast (split_newline post)"
  using assms by (simp add: complete_lines_append [of pre post] last_segment_terminated)

lemma complete_lines_frame:
  assumes "pre = [] \<or> last pre = CHR 0x0A" and "CHR 0x0A \<notin> set l"
  shows "butlast (split_newline (pre @ l @ [CHR 0x0A] @ post)) =
         butlast (split_newline pre) @ l # butlast (split_newline post)"
proof -
  have "butlast (split_newline (pre @ (l @ CHR 0x0A # post))) =
        butlast (split_newline pre) @ butlast (split_newline (l @ CHR 0x0A # post))"
    by (rule complete_lines_joined [OF assms(1)])
  moreover have "butlast (split_newline (l @ CHR 0x0A # post)) = l # butlast (split_newline post)"
    using assms(2) by (simp add: split_newline_line split_newline_nonempty)
  ultimately show ?thesis by simp
qed

lemma streamAgent_complete_lines:
  "streamAgent parse emit (Body (map Chunk cs)) st =
     (case process_lines parse emit (butlast (split_newline (concat cs))) ([], st) of
        Return x \<Rightarrow> (Sentinel, x)
      | Continue x \<Rightarrow> (StreamClosed, x))"
  using read_loop_complete_lines [of "[]" parse emit cs "([], st)"]
  by (simp add: streamAgent_def)

lemma process_lines_same_consumer:
  assumes "map_loop snd P = map_loop snd Q"
  shows "fst (case P of Return x \<Rightarrow> (Sentinel, x) | Continue x \<Rightarrow> (StreamClosed, x)) =
         fst (case Q of Return x \<Rightarrow> (Sentinel, x) | Continue x \<Rightarrow> (StreamClosed, x))
       \<and> snd (snd (case P of Return x \<Rightarrow> (Sentinel, x) | Continue x \<Rightarrow> (StreamClosed, x))) =
         snd (snd (case Q of Return x \<Rightarrow> (Sentinel, x) | Continue x \<Rightarrow> (StreamClosed, x)))"
  using assms by (cases P; cases Q) auto

text \<open>
  Claim C7, as amended. Let the text of the stream hold, after \<open>pre\<close> (empty or ending
  with a newline), the line \<open>data: d\<close>, where \<open>d\<close> is not the sentinel and \<open>JSON.parse\<close>
  throws on \<open>d\<close>, and then \<open>post\<close>. However the text is cut into chunks, \<open>streamAgent\<close>
  processes the lines of \<open>pre\<close>, logs \<open>d\<close> as a diagnostic without calling the callback
  (the consumer's state passes unchanged), and goes on with the lines of \<open>post\<close>. It
  ends as the stream without the line ends, with the same consumer state. Last, no body
  made of chunks makes \<open>streamAgent\<close> end with an exception, whatever \<open>JSON.parse\<close>
  returns and whether the callback throws or not.
\<close>

theorem malformed_frame_dropped:
  assumes "parse d = None" and "d \<noteq> ''[DONE]''" and "CHR 0x0A \<notin> set d"
    and "concat cs = pre @ (''data: '' @ d) @ [CHR 0x0A] @ post"
    and "pre = [] \<or> last pre = CHR 0x0A"
  shows "streamAgent parse emit (Body (map Chunk cs)) st =
           (case process_lines parse emit (butlast (split_newline pre)) ([], st) of
              Return x \<Rightarrow> (Sentinel, x)
            | Continue (warns, st') \<Rightarrow>
                (case process_lines parse emit (butlast (split_newline post))
                        (warns @ [d], st') of
                   Return x \<Rightarrow> (Sentinel, x)
                 | Continue x \<Rightarrow> (StreamClosed, x)))
         \<and> fst (streamAgent parse emit (Body (map Chunk cs)) st) =
             fst (streamAgent parse emit (Body [Chunk (pre @ post)]) st)
         \<and> snd (snd (streamAgent parse emit (Body (map Chunk cs)) st)) =
             snd (snd (streamAgent parse emit (Body [Chunk (pre @ post)]) st))
         \<and> fst (streamAgent parse' emit' (Body (map Chunk cs')) st') \<in> {StreamClosed, Sentinel}"
proof -
  let ?A = "butlast (split_newline pre)" and ?B = "butlast (split_newline post)"
  have N: "CHR 0x0A \<notin> set (''data: '' @ d)"
    using assms(3) by simp
  have L: "butlast (split_newline (concat cs)) = ?A @ (''data: '' @ d) # ?B"
    using complete_lines_frame [OF assms(5) N, of post] assms(4) by simp
  have S: "process_lines parse emit ((''data: '' @ d) # ?B) (w, s) =
           process_lines parse emit ?B (w @ [d], s)" for w s
    using assms(1,2) by simp
  have W: "streamAgent parse emit (Body (map Chunk cs)) st =
           (case process_lines parse emit ?A ([], st) of
              Return x \<Rightarrow> (Sentinel, x)
            | Continue (warns, st') \<Rightarrow>
                (case process_lines parse emit ?B (warns @ [d], st') of
                   Return x \<Rightarrow> (Sentinel, x)
                 | Continue x \<Rightarrow> (StreamClosed, x)))"
  proof (cases "process_lines parse emit ?A ([], st)")
    case (Return x)
    then show ?thesis
      by (simp only: streamAgent_complete_lines L process_lines_append) simp
  next
    case (Continue x)
    obtain w s where X: "x = (w, s)" by (cases x)
    show ?thesis
      by (simp only: streamAgent_complete_lines L process_lines_append Continue X S
          loop.case prod.case)
  qed
  have O: "streamAgent parse emit (Body [Chunk (pre @ post)]) st =
           (case process_lines parse emit ?A ([], st) of
              Return x \<Rightarrow> (Sentinel, x)
            | Continue (warns, st') \<Rightarrow>
                (case process_lines parse emit ?B (warns, st') of
                   Return x \<Rightarrow> (Sentinel, x)
                 | Continue x \<Rightarrow> (StreamClosed, x)))"
  proof (cases "process_lines parse emit ?A ([], st)")
    case (Return x)
    then show ?thesis
      using streamAgent_complete_lines [of parse emit "[pre @ post]" st]
      by (simp add: complete_lines_joined [OF assms(5)] process_lines_append)
  next
    case (Continue x)
    obtain w s where X: "x = (w, s)" by (cases x)
    show ?thesis
      using streamAgent_complete_lines [of parse emit "[pre @ post]" st]
      by (simp add: complete_lines_joined [OF assms(5)] process_lines_append Continue X)
  qed
  have E: "fst (streamAgent parse emit (Body (map Chunk cs)) st) =
             fst (streamAgent parse emit (Body [Chunk (pre @ post)]) st)
         \<and> snd (snd (streamAgent parse emit (Body (map Chunk cs)) st)) =
             snd (snd (streamAgent parse emit (Body [Chunk (pre @ post)]) st))"
  proof (cases "process_lines parse emit ?A ([], st)")
    case (Return x)
    then show ?thesis by (simp add: W O)
  next
    case (Continue x)
    obtain w s where X: "x = (w, s)" by (cases x)
    show ?thesis
      using process_lines_same_consumer
        [OF process_lines_warns [of parse emit ?B "w @ [d]" s w]]
      by (simp add: W O Continue X)
  qed
  have X: "fst (streamAgent parse' emit' (Body (map Chunk cs')) st') \<in> {StreamClosed, Sentinel}"
    by (simp add: streamAgent_complete_lines split: loop.splits)
  from W E X show ?thesis by simp
qed

theorem malformed_frame_dropped_witness:
  "(\<lambda>s. if s = ''ok'' then Some (1::nat) else None) ''{not valid json'' = None
   \<and> ''{not valid json'' \<noteq> ''[DONE]''
   \<and> CHR 0x0A \<notin> set ''{not valid json''
   \<and> concat [''data: ok\<newline>data: {not valid js'', ''on\<newline>data: ok\<newline>''] =
       ''data: ok\<newline>'' @ (''data: '' @ ''{not valid json'') @ [CHR 0x0A] @ ''data: ok\<newline>''
   \<and> (''data: ok\<newline>'' = [] \<or> last ''data: ok\<newline>'' = CHR 0x0A)
   \<and> streamAgent (\<lambda>s. if s = ''ok'' then Some (1::nat) else None) (\<lambda>e es. Normal (es @ [e]))
        (Body (map Chunk [''data: ok\<newline>data: {not valid js'', ''on\<newline>data: ok\<newline>''])) []
      = (StreamClosed, [''{not valid json''], [1, 1])"
  using malformed_frame_dropped [where parse = "\<lambda>s. if s = ''ok'' then Some (1::nat) else None"
      and d = "''{not valid json''"
      and cs = "[''data: ok\<newline>data: {not valid js'', ''on\<newline>data: ok\<newline>'']"
      and pre = "''data: ok\<newline>''" and post = "''data: ok\<newline>''"
      and emit = "\<lambda>e es. Normal (es @ [e])" and st = "[]"
      and parse' = "\<lambda>s. if s = ''ok'' then Some (1::nat) else None"
      and emit' = "\<lambda>e es. Normal (es @ [e])" and cs' = "[]" and st' = "[]"]
  by simp

text \<open>
  Claim C7 as stated fails for a payload that is valid JSON and not an event. The
  payload \<open>5\<close> is given to the callback and nothing is logged. The payload \<open>null\<close> is
  given to the callback too; a callback that records its argument and then throws, as
  the hook's does on \<open>null\<close> when it reads \<open>event.type\<close>, leaves the value recorded,
  and the line is logged as if it had not parsed.
\<close>

theorem non_event_payload_reaches_callback:
  "sample_json ''5'' = Some (JNum 5) \<and> ''5'' \<noteq> ''[DONE]''
   \<and> streamAgent sample_json (\<lambda>v vs. Normal (vs @ [v])) (Body [Chunk ''data: 5\<newline>'']) []
       = (StreamClosed, [], [JNum 5])
   \<and> streamAgent sample_json (\<lambda>v vs. if v = JNull then Threw (vs @ [v]) else Normal (vs @ [v]))
        (Body [Chunk ''data: null\<newline>'']) []
       = (StreamClosed, [''null''], [JNull])"
  by (simp add: streamAgent_def sample_json_def)

text \<open>
  Claim C10. When the text of the whole stream is \<open>body @ t\<close>, where \<open>body\<close> is empty or
  ends with a newline and \<open>t\<close> has no newline (the unterminated last line), the stream
  is decoded as \<open>body\<close> alone is, however the text was cut into chunks: \<open>t\<close> is never
  parsed, so it emits no event and cannot be the sentinel. Only the lines before the
  last newline are given to the loop.
\<close>

theorem trailing_line_discarded:
  assumes "concat cs = body @ t"
    and "body = [] \<or> last body = CHR 0x0A"
    and "CHR 0x0A \<notin> set t"
  shows "streamAgent parse emit (Body (map Chunk cs)) st =
           streamAgent parse emit (Body [Chunk body]) st
         \<and> streamAgent parse emit (Body (map Chunk cs)) st =
             (case process_lines parse emit (butlast (split_newline body)) ([], st) of
                Return x \<Rightarrow> (Sentinel, x)
              | Continue x \<Rightarrow> (StreamClosed, x))"
proof -
  have A: "streamAgent parse emit (Body (map Chunk cs)) st =
             (case process_lines parse emit (butlast (split_newline body)) ([], st) of
                Return x \<Rightarrow> (Sentinel, x)
              | Continue x \<Rightarrow> (StreamClosed, x))"
    using assms complete_lines_trailing [of body t]
    by (simp add: streamAgent_def read_loop_complete_lines)
  have B: "streamAgent parse emit (Body [Chunk body]) st =
             (case process_lines parse emit (butlast (split_newline body)) ([], st) of
                Return x \<Rightarrow> (Sentinel, x)
              | Continue x \<Rightarrow> (StreamClosed, x))"
    using read_loop_complete_lines [of "[]" parse emit "[body]" "([], st)"]
    by (simp add: streamAgent_def)
  from A B show ?thesis by simp
qed

theorem trailing_line_discarded_witness:
  "concat [''data: a\<newline>da'', ''ta: b\<newline>data: [DO'', ''NE]''] = ''data: a\<newline>data: b\<newline>'' @ ''data: [DONE]''
   \<and> (''data: a\<newline>data: b\<newline>'' = [] \<or> last ''data: a\<newline>data: b\<newline>'' = CHR 0x0A)
   \<and> CHR 0x0A \<notin> set ''data: [DONE]''
   \<and> streamAgent Some (\<lambda>e es. Normal (es @ [e]))
        (Body (map Chunk [''data: a\<newline>da'', ''ta: b\<newline>data: [DO'', ''NE]''])) []
      = (StreamClosed, [], [''a'', ''b''])"
  using trailing_line_discarded [of "[''data: a\<newline>da'', ''ta: b\<newline>data: [DO'', ''NE]'']"
     "''data: a\<newline>data: b\<newline>''" "''data: [DONE]''" Some "\<lambda>e es. Normal (es @ [e])" "[]"]
  by (simp add: streamAgent_def)

section \<open>Properties of the callback\<close>

lemma upto_last_content_snoc:
  "upto_last_content (es @ [e]) = (if ev_type e = E_content then es @ [e] else upto_last_content es)"
  by (simp add: upto_last_content_def)

lemma onEvent_closure:
  "fst (onEvent world e (c, s)) =
     c\<lparr>events := events c @ [e],
       fullContent := fullContent c @ (if ev_type e = E_content then ev_content e else [])\<rparr>"
  by (cases "ev_type e") (simp_all add: onEvent_def Let_def)


lemma onEvent_messages:
  "messages (snd (onEvent world e (c, s))) =
     (if ev_type e = E_content then
        map (\<lambda>m. if msg_id m = assistantMessageId c
                  then m\<lparr>msg_content := fullContent c @ ev_content e,
                         msg_events := Some (events c @ [e])\<rparr>
                  else m) (messages s)
      else if ev_type e = E_complete then
        map (\<lambda>m. if msg_id m = assistantMessageId c
                  then m\<lparr>streaming := Some False,
                         msg_metadata := Some (CompleteMeta ((ev_metadata e)
                            \<lparr>total_events := Some (of_nat (length (events c @ [e])))\<rparr>))\<rparr>
                  else m) (messages s)
      else messages s)"
  by (cases "ev_type e") (simp_all add: onEvent_def Let_def updateMessage_def addToolCall_def)

lemma onEvent_tracks:
  assumes "tracks (c, s)"
  shows "tracks (onEvent world e (c, s))"
proof -
  obtain c' s' where R: "onEvent world e (c, s) = (c', s')" by (cases "onEvent world e (c, s)")
  have C: "c' = c\<lparr>events := events c @ [e],
       fullContent := fullContent c @ (if ev_type e = E_content then ev_content e else [])\<rparr>"
    using onEvent_closure [of world e c s] R by simp
  have M: "messages s' =
     (if ev_type e = E_content then
        map (\<lambda>m. if msg_id m = assistantMessageId c
                  then m\<lparr>msg_content := fullContent c @ ev_content e,
                         msg_events := Some (events c @ [e])\<rparr>
                  else m) (messages s)
      else if ev_type e = E_complete then
        map (\<lambda>m. if msg_id m = assistantMessageId c
                  then m\<lparr>streaming := Some False,
                         msg_metadata := Some (CompleteMeta ((ev_metadata e)
                            \<lparr>total_events := Some (of_nat (length (events c @ [e])))\<rparr>))\<rparr>
                  else m) (messages s)
      else messages s)"
    using onEvent_messages [of world e c s] R by simp
  from assms have N: "messages s \<noteq> []" by (simp add: tracks_def)
  show ?thesis
    using assms N unfolding R
    by (simp add: tracks_def C M last_map upto_last_content_snoc)
qed

lemma fold_onEvent_tracks:
  "tracks x \<Longrightarrow> tracks (fold (onEvent world) es x)"
proof (induction es arbitrary: x)
  case Nil
  then show ?case by simp
next
  case (Cons e es)
  obtain c s where X: "x = (c, s)" by (cases x)
  with Cons.prems have "tracks (onEvent world e x)" by (simp add: onEvent_tracks)
  then show ?case by (simp add: Cons.IH)
qed

lemma fold_onEvent_closure:
  "fst (fold (onEvent world) es (c, s)) =
     c\<lparr>events := events c @ es, fullContent := fullContent c @ content_of es\<rparr>"
proof (induction es arbitrary: c s)
  case Nil
  show ?case by (simp add: content_of_def)
next
  case (Cons e es)
  obtain c' s' where R: "onEvent world e (c, s) = (c', s')" by (cases "onEvent world e (c, s)")
  have C: "c' = c\<lparr>events := events c @ [e],
       fullContent := fullContent c @ (if ev_type e = E_content then ev_content e else [])\<rparr>"
    using onEvent_closure [of world e c s] R by simp
  show ?case by (simp add: R Cons.IH C content_of_def)
qed


lemma begin_tracks: "tracks (handleStreamingResponse_begin e s)"
  by (simp add: tracks_def handleStreamingResponse_begin_def addMessage_def Let_def
      assistant_placeholder_def upto_last_content_def)


lemma process_lines_fold:
  "process_lines parse (\<lambda>e x. Normal (emit e x)) ls (w, fold emit acc st) =
     map_loop (\<lambda>(w', es). (w', fold emit es st))
       (process_lines parse (\<lambda>e es. Normal (es @ [e])) ls (w, acc))"
proof (induction ls arbitrary: w acc)
  case Nil
  show ?case by simp
next
  case (Cons l ls)
  have S: "process_lines parse (\<lambda>e x. Normal (emit e x)) ls (w, emit x (fold emit acc st)) =
           map_loop (\<lambda>(w', es). (w', fold emit es st))
             (process_lines parse (\<lambda>e es. Normal (es @ [e])) ls (w, acc @ [x]))" for x
    using Cons.IH [of w "acc @ [x]"] by simp
  show ?case by (simp add: Let_def S Cons.IH split: option.splits)
qed

lemma read_loop_fold:
  "read_loop parse (\<lambda>e x. Normal (emit e x)) reads buffer (w, fold emit acc st) =
     (case read_loop parse (\<lambda>e es. Normal (es @ [e])) reads buffer (w, acc) of
        (ex, w', es) \<Rightarrow> (ex, w', fold emit es st))"
proof (induction reads arbitrary: buffer w acc)
  case Nil
  show ?case by simp
next
  case (Cons r reads)
  show ?case
  proof (cases r)
    case (Rejected t)
    then show ?thesis by simp
  next
    case (Chunk v)
    show ?thesis
    proof (cases "process_lines parse (\<lambda>e es. Normal (es @ [e]))
                    (butlast (split_newline (buffer @ v))) (w, acc)")
      case (Continue x)
      obtain w' es where X: "x = (w', es)" by (cases x)
      show ?thesis
        using Continue X Chunk Cons.IH [of "last (split_newline (buffer @ v))" w' es]
        by (simp add: process_lines_fold Let_def)
    next
      case (Return x)
      obtain w' es where X: "x = (w', es)" by (cases x)
      show ?thesis using Return X Chunk by (simp add: process_lines_fold Let_def)
    qed
  qed
qed

lemma streamAgent_fold:
  "streamAgent parse (\<lambda>e x. Normal (emit e x)) resp st =
     (case streamAgent parse (\<lambda>e es. Normal (es @ [e])) resp [] of
        (ex, w, es) \<Rightarrow> (ex, w, fold emit es st))"
proof (cases resp)
  case (Body reads)
  then show ?thesis
    using read_loop_fold [of parse emit reads "[]" "[]" "[]" st]
    by (simp add: streamAgent_def)
qed (simp_all add: streamAgent_def split: sum.splits)

lemma handleStreamingResponse_fold:
  "snd (handleStreamingResponse e parse world resp s) =
     snd (fold (onEvent world) (decoded_events parse resp) (handleStreamingResponse_begin e s))"
  by (simp add: handleStreamingResponse_def decoded_events_def
      streamAgent_fold [of parse "onEvent world"] split: prod.splits)

text \<open>
  Claim C6. After \<open>handleStreamingResponse\<close>, however the stream ended, the content of the
  assistant message it appended is the concatenation, in arrival order, of the \<open>content\<close>
  fields of the decoded \<open>content\<close> events. Applying further events only appends to the
  content: after \<open>es1 @ es2\<close> it is the content after \<open>es1\<close> followed by the
  \<open>content\<close> fields of the \<open>content\<close> events of \<open>es2\<close>.
\<close>

theorem content_is_concatenation:
  "msg_content (last (messages (snd (handleStreamingResponse e parse world resp s)))) =
     concat (map ev_content (filter (\<lambda>ev. ev_type ev = E_content) (decoded_events parse resp)))
   \<and> msg_content (last (messages (snd (fold (onEvent world) (es1 @ es2)
                                         (handleStreamingResponse_begin e s))))) =
     msg_content (last (messages (snd (fold (onEvent world) es1
                                         (handleStreamingResponse_begin e s))))) @
     concat (map ev_content (filter (\<lambda>ev. ev_type ev = E_content) es2))"
proof -
  have F: "msg_content (last (messages (snd (fold (onEvent world) es
                                         (handleStreamingResponse_begin e s))))) = content_of es"
    for es
  proof -
    obtain c0 s0 where B: "handleStreamingResponse_begin e s = (c0, s0)"
      by (cases "handleStreamingResponse_begin e s")
    obtain c1 s1 where E: "fold (onEvent world) es (c0, s0) = (c1, s1)"
      by (cases "fold (onEvent world) es (c0, s0)")
    have "tracks (c1, s1)"
      using fold_onEvent_tracks [OF begin_tracks, of world es e s] B E by simp
    moreover have "fullContent c1 = fullContent c0 @ content_of es"
      using fold_onEvent_closure [of world es c0 s0] E by simp
    moreover have "fullContent c0 = []"
      using B by (auto simp: handleStreamingResponse_begin_def addMessage_def Let_def)
    ultimately show ?thesis by (simp add: B E tracks_def)
  qed
  have G: "content_of (es1 @ es2) = content_of es1 @ content_of es2"
    by (simp add: content_of_def)
  show ?thesis
    using F [of "es1 @ es2"] F [of es1] F [of "decoded_events parse resp"] G
    by (simp only: handleStreamingResponse_fold) (simp add: content_of_def)
qed





text \<open>
  The invariant in the words of the data model: at most one assistant message has
  \<open>streaming = true\<close>, and if there is one it is the last message.
\<close>

lemma single_streaming_words:
  "single_streaming ms \<longleftrightarrow>
     length (filter streaming_assistant ms) \<le> 1
     \<and> (filter streaming_assistant ms = [] \<or> (ms \<noteq> [] \<and> streaming_assistant (last ms)))"
proof (cases "ms = []")
  case True
  then show ?thesis by (simp add: single_streaming_def)
next
  case False
  then obtain xs x where M: "ms = xs @ [x]"
    by (metis append_butlast_last_id)
  show ?thesis
  proof (cases "streaming_assistant x")
    case True
    then show ?thesis
      by (simp add: M single_streaming_def list_all_iff filter_empty_conv)
  next
    case F: False
    have "filter streaming_assistant xs = []" if "\<forall>m\<in>set xs. \<not> streaming_assistant m"
      using that by (simp add: filter_empty_conv)
    with F show ?thesis
      by (auto simp: M single_streaming_def list_all_iff filter_empty_conv)
  qed
qed




lemma sendMessage_begin_messages:
  "messages (state (sendMessage_begin e content useStreaming h)) =
     messages (state h) @ [(user_message content)\<lparr>msg_id := make_id e, msg_timestamp := new_date e\<rparr>]"
  by (simp add: sendMessage_begin_def addMessage_def Let_def)






lemma in_flight_messages:
  "map msg_type (messages (state in_flight)) = [User, Assistant]
   \<and> map streaming (messages (state in_flight)) = [None, Some True]
   \<and> isStreaming (state in_flight)"
  by (simp add: in_flight_def sendMessage_begin_def handleStreamingResponse_begin_def
      addMessage_def initial_hook_def initial_def Let_def user_message_def
      assistant_placeholder_def)



text \<open>
  Claim C1, as amended. \<open>sendMessage\<close> makes no test of \<open>isStreaming\<close>: a call made
  while a stream is in flight appends the user message, sets \<open>isLoading\<close>, sets
  \<open>isStreaming\<close> to \<open>useStreaming\<close>, clears \<open>error\<close> and \<open>streamingEvents\<close>, installs
  a new abort controller and, when streaming, appends a new assistant message before its
  own stream is opened.
\<close>

theorem send_while_streaming_not_rejected:
  assumes "isStreaming (state h)"
  shows "messages (state (sendMessage_begin e content useStreaming h)) =
           messages (state h) @
             [(user_message content)\<lparr>msg_id := make_id e, msg_timestamp := new_date e\<rparr>]
         \<and> isLoading (state (sendMessage_begin e content useStreaming h))
         \<and> isStreaming (state (sendMessage_begin e content useStreaming h)) = useStreaming
         \<and> error (state (sendMessage_begin e content useStreaming h)) = None
         \<and> streamingEvents (state (sendMessage_begin e content useStreaming h)) = []
         \<and> abortControllerRef (sendMessage_begin e content useStreaming h) = Some False
         \<and> messages (snd (handleStreamingResponse_begin e'
               (state (sendMessage_begin e content True h)))) =
           messages (state h) @
             [(user_message content)\<lparr>msg_id := make_id e, msg_timestamp := new_date e\<rparr>,
              assistant_placeholder\<lparr>msg_id := make_id e', msg_timestamp := new_date e'\<rparr>]"
  by (simp add: sendMessage_begin_def handleStreamingResponse_begin_def addMessage_def Let_def)

theorem send_while_streaming_not_rejected_witness:
  "isStreaming (state in_flight)
   \<and> map msg_content (messages (state in_flight)) = [''hi'', []]
   \<and> map msg_content (messages (state
        (sendMessage_begin (sample_entropy 3) ''again'' True in_flight))) = [''hi'', [], ''again'']"
  using send_while_streaming_not_rejected [of in_flight "sample_entropy 3" "''again''" True
      "sample_entropy 4"]
  by (simp add: in_flight_def sendMessage_begin_def handleStreamingResponse_begin_def
      addMessage_def initial_hook_def initial_def Let_def user_message_def
      assistant_placeholder_def)

text \<open>
  Claim C1 as stated fails: a second \<open>sendMessage\<close> while \<open>isStreaming\<close> is true changes
  the state, the message list is one longer.
\<close>

theorem send_while_streaming_changes_state:
  "isStreaming (state in_flight)
   \<and> state (sendMessage_begin (sample_entropy 3) ''again'' True in_flight) \<noteq> state in_flight
   \<and> length (messages (state (sendMessage_begin (sample_entropy 3) ''again'' True in_flight))) =
       length (messages (state in_flight)) + 1"
proof -
  have A: "isStreaming (state in_flight)"
    by (simp add: in_flight_messages)
  have B: "length (messages (state (sendMessage_begin (sample_entropy 3) ''again'' True in_flight))) =
       length (messages (state in_flight)) + 1"
    by (simp add: sendMessage_begin_messages)
  have "messages (state (sendMessage_begin (sample_entropy 3) ''again'' True in_flight)) \<noteq>
        messages (state in_flight)"
    using B by auto
  then have "state (sendMessage_begin (sample_entropy 3) ''again'' True in_flight) \<noteq> state in_flight"
    by auto
  with A B show ?thesis by simp
qed

section \<open>Failure and cancellation\<close>

lemma read_loop_rejected:
  "read_loop parse emit (map Chunk cs @ Rejected t # rest) buffer x =
     (case read_loop parse emit (map Chunk cs) buffer x of
        (Sentinel, x') \<Rightarrow> (Sentinel, x')
      | (ex, x') \<Rightarrow> (Exception t, x'))"
proof (induction cs arbitrary: buffer x)
  case Nil
  show ?case by simp
next
  case (Cons c cs)
  show ?case
    by (cases "process_lines parse emit (butlast (split_newline (buffer @ c))) x")
       (simp_all add: Cons.IH Let_def)
qed

lemma handleStreamingResponse_rejected:
  "handleStreamingResponse e parse world (Body (map Chunk cs @ Rejected t # rest)) s =
     (case handleStreamingResponse e parse world (Body (map Chunk cs)) s of
        (Sentinel, s') \<Rightarrow> (Sentinel, s')
      | (ex, s') \<Rightarrow> (Exception t, s'))"
  by (simp add: handleStreamingResponse_def streamAgent_def read_loop_rejected
      split: prod.splits exit.splits)

text \<open>
  A read that rejects after the chunks \<open>cs\<close>, in which the sentinel was not met: the
  state is the one those chunks produced, with \<open>error\<close> set to the failure's message
  and \<open>isLoading\<close> and \<open>isStreaming\<close> false.
\<close>

lemma mid_stream_failure:
  assumes "fst (handleStreamingResponse e2 parse world (Body (map Chunk cs))
              (state (sendMessage_begin e1 content True h))) \<noteq> Sentinel"
  shows "state (sendMessage e1 e2 parse world (Body (map Chunk cs @ Rejected t' # rest))
                 reply content True h) =
          (snd (handleStreamingResponse e2 parse world (Body (map Chunk cs))
                  (state (sendMessage_begin e1 content True h))))
            \<lparr>error := Some (error_message t'), isLoading := False, isStreaming := False\<rparr>"
  using assms
  by (auto simp: sendMessage_def Let_def handleStreamingResponse_rejected sendMessage_end_def
      split: prod.splits exit.splits)

lemma sample_ids:
  "make_id (sample_entropy 1) = ''1-k3j9x0q2z''"
  "make_id (sample_entropy 2) = ''2-k3j9x0q2z''"
  "make_id (sample_entropy 3) = ''3-k3j9x0q2z''"
  by (simp_all add: make_id_def sample_entropy_def number_toString_def)

text \<open>
  Claim C5 does not hold of the hook. \<open>fetch\<close> rejects, no event is decoded, and
  \<open>sendMessage\<close> ends with \<open>error\<close> set and \<open>isStreaming\<close> false, but with an assistant
  message after the user message: empty, and still with \<open>streaming = true\<close>. The
  non-streaming path, on the same failure, leaves the user message alone.
\<close>

theorem failed_open_leaves_placeholder:
  "map msg_type (messages (state (sendMessage (sample_entropy 1) (sample_entropy 2) sample_parse
         sample_world (FetchRejected (ErrorObj ''Failed to fetch'')) sample_reply ''hi'' True
         (initial_hook ''agent'')))) = [User, Assistant]
   \<and> map streaming (messages (state (sendMessage (sample_entropy 1) (sample_entropy 2)
         sample_parse sample_world (FetchRejected (ErrorObj ''Failed to fetch'')) sample_reply
         ''hi'' True (initial_hook ''agent'')))) = [None, Some True]
   \<and> decoded_events sample_parse (FetchRejected (ErrorObj ''Failed to fetch'')) = []
   \<and> error (state (sendMessage (sample_entropy 1) (sample_entropy 2) sample_parse
         sample_world (FetchRejected (ErrorObj ''Failed to fetch'')) sample_reply ''hi'' True
         (initial_hook ''agent''))) = Some ''Failed to fetch''
   \<and> \<not> isStreaming (state (sendMessage (sample_entropy 1) (sample_entropy 2) sample_parse
         sample_world (FetchRejected (ErrorObj ''Failed to fetch'')) sample_reply ''hi'' True
         (initial_hook ''agent'')))
   \<and> map msg_type (messages (state (sendMessage (sample_entropy 1) (sample_entropy 2)
         sample_parse sample_world (Body []) (Inl (ErrorObj ''Failed to fetch'')) ''hi'' False
         (initial_hook ''agent'')))) = [User]"
  by (simp add: sendMessage_def sendMessage_begin_def sendMessage_end_def
      handleStreamingResponse_def handleStreamingResponse_begin_def handleSyncResponse_def
      streamAgent_def addMessage_def initial_hook_def initial_def Let_def user_message_def
      assistant_placeholder_def error_message_def decoded_events_def)

lemma stopStreaming_state: "state (stopStreaming h) = state h"
  by (simp add: stopStreaming_def split: option.splits)

lemma stopStreaming_aborts:
  "abortControllerRef h = Some b \<Longrightarrow> abortControllerRef (stopStreaming h) = Some True"
  by (simp add: stopStreaming_def)

lemma sendMessage_ref:
  "abortControllerRef (sendMessage e1 e2 parse world resp reply content u h) = None"
  by (simp add: sendMessage_def sendMessage_end_def Let_def case_prod_beta)

lemma body_reads_aborted:
  "abortControllerRef h = Some True \<Longrightarrow> body_reads a h os = [Rejected a]"
proof (induction os arbitrary: h)
  case Nil
  then show ?case by simp
next
  case (Cons x os)
  then show ?case by (cases x) (simp_all add: stopStreaming_aborts)
qed

lemma body_reads_deliver:
  "abortControllerRef h = Some False \<Longrightarrow> body_reads a h (map Deliver cs) = map Chunk cs"
  by (induction cs) simp_all

lemma body_reads_stop:
  "abortControllerRef h = Some False \<Longrightarrow>
   body_reads a h (map Deliver cs @ UserStop # rest) = map Chunk cs @ [Rejected a]"
proof (induction cs)
  case Nil
  have "abortControllerRef (stopStreaming h) = Some True"
    using Nil by (rule stopStreaming_aborts)
  then show ?case by (simp add: body_reads_aborted)
next
  case (Cons c cs)
  then show ?case by simp
qed

text \<open>
  What stop does, for every run. \<open>stopStreaming\<close> leaves the conversation state as it
  is and aborts the controller that \<open>sendMessage\<close> installed; a second call changes
  nothing more, and a call after \<open>sendMessage\<close> has ended changes nothing at all. When
  the user stops a stream after the chunks \<open>cs\<close>, \<open>sendMessage\<close> ends with
  \<open>isStreaming\<close> and \<open>isLoading\<close> false, and the messages, tool calls and streaming
  events are exactly those the chunks \<open>cs\<close> produced: nothing delivered after the stop
  is applied.
\<close>

lemma stop_mid_stream:
  "state (stopStreaming h) = state h
   \<and> abortControllerRef (stopStreaming (sendMessage_begin e1 content True h)) = Some True
   \<and> stopStreaming (stopStreaming h) = stopStreaming h
   \<and> stopStreaming (sendMessage e1 e2 parse world resp reply content useStreaming h) =
       sendMessage e1 e2 parse world resp reply content useStreaming h
   \<and> (let final = state (sendMessage_during e1 e2 parse world a
                              (map Deliver cs @ UserStop # rest) content h);
           before = snd (handleStreamingResponse e2 parse world (Body (map Chunk cs))
                       (state (sendMessage_begin e1 content True h)))
       in messages final = messages before
          \<and> toolCalls final = toolCalls before
          \<and> streamingEvents final = streamingEvents before
          \<and> \<not> isStreaming final \<and> \<not> isLoading final)"
proof -
  have L: "abortControllerRef (sendMessage_begin e1 content True h) = Some False"
    by (simp add: sendMessage_begin_def Let_def)
  have A: "stopStreaming (stopStreaming h) = stopStreaming h"
    by (simp add: stopStreaming_def split: option.splits)
  have B: "stopStreaming (sendMessage e1 e2 parse world resp reply content useStreaming h) =
       sendMessage e1 e2 parse world resp reply content useStreaming h"
    by (simp add: stopStreaming_def sendMessage_ref)
  have C: "(let final = state (sendMessage_during e1 e2 parse world a
                              (map Deliver cs @ UserStop # rest) content h);
           before = snd (handleStreamingResponse e2 parse world (Body (map Chunk cs))
                       (state (sendMessage_begin e1 content True h)))
       in messages final = messages before
          \<and> toolCalls final = toolCalls before
          \<and> streamingEvents final = streamingEvents before
          \<and> \<not> isStreaming final \<and> \<not> isLoading final)"
    by (auto simp: sendMessage_during_def sendMessage_def Let_def body_reads_stop [OF L]
        handleStreamingResponse_rejected [of _ _ _ _ _ "[]", simplified] sendMessage_end_def
        split: prod.splits exit.splits)
  from A B C show ?thesis
    by (simp add: stopStreaming_state stopStreaming_aborts [OF L])
qed

text \<open>
  Claim C8 does not hold of the hook. The stream delivers \<open>Hel\<close>, the user stops it,
  and the transport still holds \<open>lo\<close>. After the stop \<open>isStreaming\<close> is false, the
  content \<open>Hel\<close> is kept and \<open>lo\<close> is never applied (without the stop the content
  becomes \<open>Hello\<close>), but the assistant message still has \<open>streaming = true\<close>.
\<close>

theorem stop_leaves_message_streaming:
  "streaming (last (messages (state (sendMessage_during (sample_entropy 1) (sample_entropy 2)
      sample_parse sample_world (ErrorObj ''The user aborted a request.'')
      [Deliver ''data: c Hel\<newline>'', UserStop, Deliver ''data: c lo\<newline>'']
      ''hi'' (initial_hook ''agent''))))) = Some True
   \<and> msg_content (last (messages (state (sendMessage_during (sample_entropy 1)
      (sample_entropy 2) sample_parse sample_world (ErrorObj ''The user aborted a request.'')
      [Deliver ''data: c Hel\<newline>'', UserStop, Deliver ''data: c lo\<newline>'']
      ''hi'' (initial_hook ''agent''))))) = ''Hel''
   \<and> \<not> isStreaming (state (sendMessage_during (sample_entropy 1) (sample_entropy 2)
      sample_parse sample_world (ErrorObj ''The user aborted a request.'')
      [Deliver ''data: c Hel\<newline>'', UserStop, Deliver ''data: c lo\<newline>'']
      ''hi'' (initial_hook ''agent'')))
   \<and> error (state (sendMessage_during (sample_entropy 1) (sample_entropy 2)
      sample_parse sample_world (ErrorObj ''The user aborted a request.'')
      [Deliver ''data: c Hel\<newline>'', UserStop, Deliver ''data: c lo\<newline>'']
      ''hi'' (initial_hook ''agent''))) = Some ''The user aborted a request.''
   \<and> msg_content (last (messages (state (sendMessage_during (sample_entropy 1)
      (sample_entropy 2) sample_parse sample_world (ErrorObj ''The user aborted a request.'')
      [Deliver ''data: c Hel\<newline>'', Deliver ''data: c lo\<newline>'']
      ''hi'' (initial_hook ''agent''))))) = ''Hello''"
  by (simp add: sendMessage_during_def sendMessage_def sendMessage_begin_def sendMessage_end_def
      handleStreamingResponse_def handleStreamingResponse_begin_def streamAgent_def
      stopStreaming_def addMessage_def initial_hook_def initial_def Let_def user_message_def
      assistant_placeholder_def sample_parse_def onEvent_def sample_event_def
      updateMessage_def error_message_def sample_ids)

section \<open>Replay and tool correlation\<close>

lemma erase_complete_calls:
  "map erase_call (map (complete_call r ev) (enumerate n tcs)) =
   map erase_call (map (complete_call r' ev) (enumerate n (map erase_call tcs)))"
  by (induction tcs arbitrary: n)
     (simp_all add: complete_call_def erase_call_def option.map_comp comp_def)

lemma erase_fail_calls:
  "map erase_call (map (fail_call ev) tcs) =
   map erase_call (map (fail_call ev) (map erase_call tcs))"
  by (induction tcs) (simp_all add: fail_call_def erase_call_def option.map_comp comp_def)

lemma erase_update_all:
  assumes "list_all (\<lambda>m. msg_id m = i) ms"
    and "\<And>m. erase_message (f m) = erase_message (f (erase_message m))"
  shows "map erase_message (map (\<lambda>m. if msg_id m = i then f m else m) ms) =
         map erase_message (map (\<lambda>m. if msg_id m = [] then f m else m) (map erase_message ms))"
  using assms(1)
proof (induction ms)
  case Nil
  show ?case by simp
next
  case (Cons m ms)
  have "msg_id (erase_message m) = []" by (simp add: erase_message_def)
  with Cons assms(2) [of m] show ?case by simp
qed

lemma erase_message_idem: "erase_message (erase_message m) = erase_message m"
  by (simp add: erase_message_def)

lemma erase_call_idem: "erase_call (erase_call t) = erase_call t"
  by (simp add: erase_call_def option.map_comp comp_def)

lemma erase_state_idem: "erase_state (erase_state s) = erase_state s"
  by (simp add: erase_state_def erase_message_idem erase_call_idem comp_def)

lemma erase_state_eqI:
  assumes "map erase_message (messages s1) = map erase_message (messages s2)"
    and "map erase_call (toolCalls s1) = map erase_call (toolCalls s2)"
    and "s1\<lparr>messages := [], toolCalls := []\<rparr> = s2\<lparr>messages := [], toolCalls := []\<rparr>"
  shows "erase_state s1 = erase_state s2"
proof -
  have "erase_state s1 = (s1\<lparr>messages := [], toolCalls := []\<rparr>)
          \<lparr>messages := map erase_message (messages s1),
            toolCalls := map erase_call (toolCalls s1)\<rparr>"
    by (simp add: erase_state_def)
  also have "\<dots> = (s2\<lparr>messages := [], toolCalls := []\<rparr>)
          \<lparr>messages := map erase_message (messages s2),
            toolCalls := map erase_call (toolCalls s2)\<rparr>"
    by (simp only: assms)
  also have "\<dots> = erase_state s2"
    by (simp add: erase_state_def)
  finally show ?thesis .
qed

lemma onEvent_toolCalls:
  "toolCalls (snd (onEvent world ev (c, s))) =
     (if ev_type ev = E_tool_call then
        toolCalls s @ [(running_call ev)\<lparr>tc_id := make_id (tool_entropy (world (length (events c)))),
                         tc_timestamp := new_date (tool_entropy (world (length (events c))))\<rparr>]
      else if ev_type ev = E_tool_response then
        map (complete_call (world (length (events c))) ev) (enumerate 0 (toolCalls s))
      else if ev_type ev = E_error then map (fail_call ev) (toolCalls s)
      else toolCalls s)"
  by (cases "ev_type ev") (simp_all add: onEvent_def Let_def updateMessage_def addToolCall_def)

lemma onEvent_rest:
  "(snd (onEvent world ev (c, s)))\<lparr>messages := [], toolCalls := []\<rparr> =
     s\<lparr>messages := [], toolCalls := [], streamingEvents := streamingEvents s @ [ev],
       error := (if ev_type ev = E_error then Some (ev_content ev) else error s)\<rparr>"
  by (cases "ev_type ev") (simp_all add: onEvent_def Let_def updateMessage_def addToolCall_def)

lemma onEvent_blank:
  assumes "own_messages (c, s)"
  shows "blank (onEvent world ev (c, s)) = blank (onEvent world' ev (blank (c, s)))"
proof -
  let ?c0 = "c\<lparr>assistantMessageId := []\<rparr>"
  let ?L = "snd (onEvent world ev (c, s))"
  let ?R = "snd (onEvent world' ev (?c0, erase_state s))"
  have M: "list_all (\<lambda>m. msg_id m = assistantMessageId c) (messages s)"
    using assms by (simp add: own_messages_def)
  have C: "(fst (onEvent world ev (c, s)))\<lparr>assistantMessageId := []\<rparr> =
           (fst (onEvent world' ev (?c0, erase_state s)))\<lparr>assistantMessageId := []\<rparr>"
    by (simp add: onEvent_closure)
  have E1: "messages (erase_state s) = map erase_message (messages s)"
    and E2: "toolCalls (erase_state s) = map erase_call (toolCalls s)"
    by (simp_all add: erase_state_def)
  have U1: "map erase_message (map (\<lambda>m. if msg_id m = assistantMessageId c
                  then m\<lparr>msg_content := fullContent c @ ev_content ev,
                         msg_events := Some (events c @ [ev])\<rparr>
                  else m) (messages s)) =
            map erase_message (map (\<lambda>m. if msg_id m = []
                  then m\<lparr>msg_content := fullContent c @ ev_content ev,
                         msg_events := Some (events c @ [ev])\<rparr>
                  else m) (map erase_message (messages s)))"
    by (rule erase_update_all [OF M]) (simp add: erase_message_def)
  have U2: "map erase_message (map (\<lambda>m. if msg_id m = assistantMessageId c
                  then m\<lparr>streaming := Some False,
                         msg_metadata := Some (CompleteMeta ((ev_metadata ev)
                            \<lparr>total_events := Some (of_nat (length (events c @ [ev])))\<rparr>))\<rparr>
                  else m) (messages s)) =
            map erase_message (map (\<lambda>m. if msg_id m = []
                  then m\<lparr>streaming := Some False,
                         msg_metadata := Some (CompleteMeta ((ev_metadata ev)
                            \<lparr>total_events := Some (of_nat (length (events c @ [ev])))\<rparr>))\<rparr>
                  else m) (map erase_message (messages s)))"
    by (rule erase_update_all [OF M]) (simp add: erase_message_def)
  have SM: "map erase_message (messages ?L) = map erase_message (messages ?R)"
  proof (cases "ev_type ev = E_content")
    case True
    then show ?thesis using U1 by (simp add: onEvent_messages E1)
  next
    case False
    show ?thesis
    proof (cases "ev_type ev = E_complete")
      case True
      then show ?thesis using U2 by (simp add: onEvent_messages E1)
    next
      case F2: False
      with False show ?thesis by (simp add: onEvent_messages E1 comp_def erase_message_idem)
    qed
  qed
  have T1: "map erase_call (map (complete_call (world (length (events c))) ev)
                (enumerate 0 (toolCalls s))) =
            map erase_call (map (complete_call (world' (length (events c))) ev)
                (enumerate 0 (map erase_call (toolCalls s))))"
    by (rule erase_complete_calls)
  have T2: "map erase_call (map (fail_call ev) (toolCalls s)) =
            map erase_call (map (fail_call ev) (map erase_call (toolCalls s)))"
    by (rule erase_fail_calls)
  have ST: "map erase_call (toolCalls ?L) = map erase_call (toolCalls ?R)"
  proof (cases "ev_type ev")
    case E_tool_call
    then show ?thesis
      by (simp add: onEvent_toolCalls E2 comp_def erase_call_idem)
         (simp add: erase_call_def)
  next
    case E_tool_response
    then show ?thesis using T1 by (simp add: onEvent_toolCalls E2)
  next
    case E_error
    then show ?thesis using T2 by (simp add: onEvent_toolCalls E2)
  qed (simp_all add: onEvent_toolCalls E2 comp_def erase_call_idem)
  have SR: "?L\<lparr>messages := [], toolCalls := []\<rparr> = ?R\<lparr>messages := [], toolCalls := []\<rparr>"
    by (simp only: onEvent_rest) (simp add: erase_state_def)
  have "erase_state ?L = erase_state ?R"
    by (rule erase_state_eqI [OF SM ST SR])
  with C show ?thesis
    by (simp add: blank_def case_prod_beta)
qed

lemma onEvent_own_messages:
  assumes "own_messages (c, s)"
  shows "own_messages (onEvent world ev (c, s))"
proof -
  obtain c' s' where R: "onEvent world ev (c, s) = (c', s')" by (cases "onEvent world ev (c, s)")
  have C: "assistantMessageId c' = assistantMessageId c"
    using onEvent_closure [of world ev c s] R by simp
  have M: "map msg_id (messages s') = map msg_id (messages s)"
    using onEvent_messages [of world ev c s] R by (simp split: if_splits)
  have "\<forall>j \<in> set (map msg_id (messages s)). j = assistantMessageId c"
    using assms by (auto simp: own_messages_def list_all_iff)
  then have "\<forall>j \<in> set (map msg_id (messages s')). j = assistantMessageId c"
    by (simp only: M)
  then show ?thesis
    by (auto simp: own_messages_def R C list_all_iff)
qed

lemma blank_own_messages: "own_messages (blank x)"
  by (cases x) (simp add: blank_def own_messages_def erase_state_def erase_message_def list_all_iff)

lemma fold_onEvent_blank:
  "own_messages x \<Longrightarrow>
   blank (fold (onEvent world) es x) = blank (fold (onEvent world') es (blank x))"
proof (induction es arbitrary: x world)
  case Nil
  show ?case by (cases x) (simp add: blank_def erase_state_def erase_message_def erase_call_def
        option.map_comp comp_def)
next
  case (Cons ev es)
  obtain c s where X: "x = (c, s)" by (cases x)
  have O: "own_messages (onEvent world ev x)"
    using Cons.prems X by (simp add: onEvent_own_messages)
  obtain c0 s0 where B: "blank x = (c0, s0)" by (cases "blank x")
  have O': "own_messages (onEvent world' ev (blank x))"
    using blank_own_messages [of x] B by (simp add: onEvent_own_messages)
  have "blank (fold (onEvent world) (ev # es) x) =
        blank (fold (onEvent world') es (blank (onEvent world ev x)))"
    using Cons.IH [OF O] by simp
  also have "blank (onEvent world ev x) = blank (onEvent world' ev (blank x))"
    using onEvent_blank [of c s world ev world'] Cons.prems X by simp
  also have "blank (fold (onEvent world') es (blank (onEvent world' ev (blank x)))) =
             blank (fold (onEvent world') es (onEvent world' ev (blank x)))"
    using Cons.IH [OF O', of world'] by simp
  finally show ?case by simp
qed


lemma begin_own_messages: "own_messages (handleStreamingResponse_begin e (initial agentId))"
  by (simp add: own_messages_def handleStreamingResponse_begin_def addMessage_def Let_def
      initial_def)

lemma begin_blank:
  "blank (handleStreamingResponse_begin e (initial agentId)) =
   blank (handleStreamingResponse_begin e' (initial agentId))"
  by (simp add: blank_def handleStreamingResponse_begin_def addMessage_def Let_def
      initial_def erase_state_def erase_message_def)

text \<open>
  Claim C9, as amended. Two replays of one event sequence into a fresh state, whatever
  the clock and the random generator give in each, end in states that are equal once
  ids, timestamps and the values of durations are blanked.
\<close>

theorem replay_equal_up_to_readings:
  "erase_state (replay agentId e world es) = erase_state (replay agentId e' world' es)"
proof -
  let ?x = "handleStreamingResponse_begin e (initial agentId)"
  let ?x' = "handleStreamingResponse_begin e' (initial agentId)"
  have "blank (fold (onEvent world) es ?x) = blank (fold (onEvent world) es (blank ?x))"
    by (rule fold_onEvent_blank [OF begin_own_messages])
  moreover have "blank (fold (onEvent world') es ?x') = blank (fold (onEvent world) es (blank ?x'))"
    by (rule fold_onEvent_blank [OF begin_own_messages])
  ultimately have "blank (fold (onEvent world) es ?x) = blank (fold (onEvent world') es ?x')"
    by (simp add: begin_blank [of e agentId e'])
  then have "snd (blank (fold (onEvent world) es ?x)) = snd (blank (fold (onEvent world') es ?x'))"
    by simp
  then show ?thesis
    by (simp add: replay_def blank_def case_prod_beta)
qed

text \<open>
  Claim C9 as stated fails: the final state is not a function of the event sequence
  alone. Two replays of the same single \<open>content\<close> event differ when \<open>Date.now()\<close>
  differs, in the id of the message.
\<close>

theorem replay_depends_on_readings:
  "replay ''agent'' (sample_entropy 1) sample_world [sample_event E_content ''Hel'' no_metadata]
   \<noteq> replay ''agent'' (sample_entropy 2) sample_world [sample_event E_content ''Hel'' no_metadata]"
proof -
  have A: "map msg_id (messages (replay ''agent'' (sample_entropy 1) sample_world
              [sample_event E_content ''Hel'' no_metadata])) = [''1-k3j9x0q2z'']"
    by (simp add: replay_def handleStreamingResponse_begin_def addMessage_def Let_def
        initial_def onEvent_def sample_event_def updateMessage_def sample_ids)
  have B: "map msg_id (messages (replay ''agent'' (sample_entropy 2) sample_world
              [sample_event E_content ''Hel'' no_metadata])) = [''2-k3j9x0q2z'']"
    by (simp add: replay_def handleStreamingResponse_begin_def addMessage_def Let_def
        initial_def onEvent_def sample_event_def updateMessage_def sample_ids)
  show ?thesis
  proof
    assume "replay ''agent'' (sample_entropy 1) sample_world
              [sample_event E_content ''Hel'' no_metadata] =
            replay ''agent'' (sample_entropy 2) sample_world
              [sample_event E_content ''Hel'' no_metadata]"
    with A B show False by simp
  qed
qed

text \<open>
  Claim C2 does not hold of the hook. A \<open>tool_response\<close> whose \<open>response_id\<close> is the
  \<open>call_id\<close> of the call but which carries no \<open>tool_name\<close> completes nothing: the call
  stays \<open>running\<close> without result. With two running calls of one tool, a response for
  the first completes both. \<open>response_id\<close> is read and never used.
\<close>

theorem tool_response_matches_by_name_only:
  "map status (toolCalls (replay ''agent'' (sample_entropy 1) sample_world
       [calc_call ''c1'', calc_response None ''c1''])) = [S_running]
   \<and> map result (toolCalls (replay ''agent'' (sample_entropy 1) sample_world
       [calc_call ''c1'', calc_response None ''c1''])) = [None]
   \<and> map status (toolCalls (replay ''agent'' (sample_entropy 1) sample_world
       [calc_call ''c1'', calc_call ''c2'', calc_response (Some ''calc'') ''c1''])) =
       [S_completed, S_completed]"
  by (simp add: replay_def handleStreamingResponse_begin_def addMessage_def Let_def
      initial_def onEvent_def sample_event_def addToolCall_def calc_call_def calc_response_def
      no_metadata_def running_call_def complete_call_def js_or_def enumerate_eq_zip)

end
